theory Spec2Isabelle
  imports Main "HOL-Library.Word"
begin

unbundle bit_operations_syntax

section \<open>Selector: listener table (Selector.h)\<close>

text \<open>
  Pointers are modelled as optional addresses: \<open>None\<close> is the C++ \<open>NULL\<close>.
  A file descriptor is a C \<open>int\<close>; no arithmetic is done on it, only comparison.
\<close>

type_synonym ptr = "nat option"

definition NULL :: ptr where
  "NULL = None"

text \<open>\<open>struct Selector::ListenerNode\<close>: the four data members, in declaration order.\<close>

record ListenerNode =
  mFd :: int
  mEvents :: "16 word"
  mListener :: ptr
  mPrivateData :: nat

text \<open>
  \<open>ListenerNode::operator==\<close>: the file descriptors must match, and either one of the
  two listeners is \<open>NULL\<close> or the listeners match.
\<close>

definition ListenerNode_eq :: "ListenerNode \<Rightarrow> ListenerNode \<Rightarrow> bool" where
  "ListenerNode_eq this other =
     (if ListenerNode.mFd this = ListenerNode.mFd other \<and>
         ((ListenerNode.mListener this = NULL \<or> ListenerNode.mListener other = NULL) \<or>
          ListenerNode.mListener this = ListenerNode.mListener other)
      then True
      else False)"

text \<open>
  The two-argument constructor \<open>ListenerNode(fd, listener)\<close> used for lookups. It leaves
  \<open>mEvents\<close> and \<open>mPrivateData\<close> uninitialised; \<open>operator==\<close> never reads them, so
  they are filled with 0 here.
\<close>

definition ListenerNode_probe :: "int \<Rightarrow> ptr \<Rightarrow> ListenerNode" where
  "ListenerNode_probe fd listener =
     \<lparr>mFd = fd, mEvents = 0, mListener = listener, mPrivateData = 0\<rparr>"

text \<open>\<open>static const int kMaxPollFds = 64\<close>.\<close>

definition kMaxPollFds :: nat where
  "kMaxPollFds = 64"

text \<open>
  The part of a \<open>Selector\<close> object that the listener operations touch: the list of
  listener nodes and the flag requesting a rebuild of the poll array.
\<close>

record Selector =
  mList :: "ListenerNode list"
  mUpdateFds :: bool

text \<open>
  Readiness bits of \<open><sys/poll.h>\<close> (a system header; the Linux values). They stand
  for the specification's ERROR, HANGUP and INVALID classes.
\<close>

definition POLLERR :: "32 word" where "POLLERR = 0x008"
definition POLLHUP :: "32 word" where "POLLHUP = 0x010"
definition POLLNVAL :: "32 word" where "POLLNVAL = 0x020"

text \<open>
  Modelled from the spec: the body of \<open>Selector::addListener\<close> (declared in Selector.h,
  defined in the absent Selector.cpp). The declaration is
  \<open>void addListener(int fd, short events, SelectorListener *listener,
  jh_ptr_int_t private_data = 0)\<close>: the caller receives the unit value, and the call
  acts on the object. Specification 4.1 and 7: the call registers a ListenerEntry,
  duplicates are permitted, and when the listener table is full (\<open>kMaxPollFds\<close>
  entries) the call fails, that is, registers nothing. The entry is appended, so that
  invocation order is registration order.
\<close>

definition addListener ::
    "int \<Rightarrow> 16 word \<Rightarrow> ptr \<Rightarrow> nat \<Rightarrow> Selector \<Rightarrow> unit \<times> Selector" where
  "addListener fd events listener private_data s =
     (if kMaxPollFds \<le> length (Selector.mList s) then ((), s)
      else ((), s\<lparr>Selector.mList := Selector.mList s @
                  [\<lparr>mFd = fd, mEvents = events, mListener = listener,
                    mPrivateData = private_data\<rparr>],
                mUpdateFds := True\<rparr>))"

text \<open>
  Modelled from the spec: the body of \<open>Selector::removeListener\<close> (declared in
  Selector.h, defined in the absent Selector.cpp). Specification 4.1 and 7: every entry
  matching (fd, listener) is removed, where matching is the equality of listener nodes;
  no match is a silent success.
\<close>

definition removeListener :: "int \<Rightarrow> ptr \<Rightarrow> Selector \<Rightarrow> Selector" where
  "removeListener fd listener s =
     s\<lparr>Selector.mList :=
          filter (\<lambda>n. \<not> ListenerNode_eq (ListenerNode_probe fd listener) n) (Selector.mList s),
        mUpdateFds := True\<rparr>"

text \<open>
  One call of \<open>SelectorListener::processFileEvents(fd, events, private_data)\<close>, with the
  listener it is made on. The parameter \<open>events\<close> is a \<open>short\<close>.
\<close>

record FileEventCall =
  callee :: ptr
  call_fd :: int
  call_events :: "16 word"
  call_private_data :: nat

definition processFileEvents_call :: "ListenerNode \<Rightarrow> int \<Rightarrow> 32 word \<Rightarrow> FileEventCall" where
  "processFileEvents_call n fd events =
     \<lparr>callee = ListenerNode.mListener n, call_fd = fd, call_events = ucast events,
      call_private_data = ListenerNode.mPrivateData n\<rparr>"

text \<open>
  Modelled from the spec: the body of \<open>Selector::callListeners(int fd, uint32_t events)\<close>
  (declared in Selector.h, defined in the absent Selector.cpp). Specification 4.1, step 4:
  the table is scanned in registration order and, for every entry whose fd matches and
  whose registered mask intersects the reported bits (or the reported bits hold ERROR,
  HANGUP or INVALID), the listener is invoked with the reported bits and the cookie.
  The result is the sequence of invocations made. What a listener does when invoked is
  outside the model: the scan is over the table as it is when the scan starts.
\<close>

fun callListeners :: "ListenerNode list \<Rightarrow> int \<Rightarrow> 32 word \<Rightarrow> FileEventCall list" where
  "callListeners [] fd events = []"
| "callListeners (n # ns) fd events =
     (if ListenerNode.mFd n = fd \<and>
         (ucast (mEvents n) AND events \<noteq> 0 \<or>
          events AND (POLLERR OR POLLHUP OR POLLNVAL) \<noteq> 0)
      then processFileEvents_call n fd events # callListeners ns fd events
      else callListeners ns fd events)"

section \<open>FdReaderWriter (FdReaderWriter.cpp)\<close>

text \<open>The two data members set by the constructor: the descriptor and the selector.\<close>

record FdReaderWriter =
  mFd :: int
  mSelector :: ptr

text \<open>
  The \<open>Selector\<close> objects live in a store indexed by address. A call through a
  \<open>Selector*\<close> updates the object at that address; both calls are statements, their
  \<open>void\<close> result is dropped.
\<close>

type_synonym selectors = "nat \<Rightarrow> Selector"

definition call_removeListener :: "nat \<Rightarrow> int \<Rightarrow> ptr \<Rightarrow> selectors \<Rightarrow> selectors" where
  "call_removeListener a fd listener h = h(a := removeListener fd listener (h a))"

definition call_addListener ::
    "nat \<Rightarrow> int \<Rightarrow> 16 word \<Rightarrow> ptr \<Rightarrow> nat \<Rightarrow> selectors \<Rightarrow> selectors" where
  "call_addListener a fd events listener private_data h =
     h(a := snd (addListener fd events listener private_data (h a)))"

text \<open>The store in which no Selector has a listener yet.\<close>

definition no_listeners :: selectors where
  "no_listeners = (\<lambda>a. \<lparr>Selector.mList = [], mUpdateFds = False\<rparr>)"

text \<open>The calls that \<open>setSelector\<close> makes on selectors, in order.\<close>

datatype SelectorCall =
    RemoveListener nat int ptr
  | AddListener nat int "16 word" ptr nat

text \<open>
  \<open>FdReaderWriter::setSelector(listener, selector, subEvents)\<close>. The state is the object,
  the store of selectors and the trace of calls made so far. \<open>addListener\<close> is called
  with its default \<open>private_data = 0\<close>.
\<close>

definition setSelector ::
    "ptr \<Rightarrow> ptr \<Rightarrow> 16 word \<Rightarrow> FdReaderWriter \<times> selectors \<times> SelectorCall list
       \<Rightarrow> FdReaderWriter \<times> selectors \<times> SelectorCall list" where
  "setSelector listener selector subEvents st =
     (case st of (this, h, tr) \<Rightarrow>
        if FdReaderWriter.mFd this \<noteq> - 1 then
          let (h1, tr1) =
                (case mSelector this of
                   None \<Rightarrow> (h, tr)
                 | Some old \<Rightarrow>
                     (call_removeListener old (FdReaderWriter.mFd this) listener h,
                      tr @ [RemoveListener old (FdReaderWriter.mFd this) listener]));
              this1 = this\<lparr>mSelector := selector\<rparr>;
              (h2, tr2) =
                (case mSelector this1 of
                   None \<Rightarrow> (h1, tr1)
                 | Some new \<Rightarrow>
                     (call_addListener new (FdReaderWriter.mFd this1) subEvents listener 0 h1,
                      tr1 @ [AddListener new (FdReaderWriter.mFd this1) subEvents listener 0]))
          in (this1, h2, tr2)
        else (this, h, tr))"

text \<open>Is an entry for exactly this descriptor and listener in the selector's table?\<close>

definition registered :: "int \<Rightarrow> ptr \<Rightarrow> Selector \<Rightarrow> bool" where
  "registered fd listener s =
     list_ex (\<lambda>n. ListenerNode.mFd n = fd \<and> ListenerNode.mListener n = listener)
       (Selector.mList s)"

section \<open>Fatal error handlers (logging.h)\<close>

text \<open>
  A build configuration: which of the two preprocessor symbols the compiler was given.
\<close>

record build =
  JH_VERBOSE_LOGGING :: bool
  JH_PRODUCTION_LOGGING :: bool

text \<open>
  The sanity check at the top of logging.h: when both symbols are defined,
  \<open>JH_VERBOSE_LOGGING\<close> is undefined again. This is the value every later
  \<open>#ifdef JH_VERBOSE_LOGGING\<close> sees.
\<close>

definition verbose :: "build \<Rightarrow> bool" where
  "verbose b = (if JH_VERBOSE_LOGGING b \<and> JH_PRODUCTION_LOGGING b then False
                else JH_VERBOSE_LOGGING b)"

text \<open>What a macro expansion does when executed: calls of \<open>jh_log_print\<close> and \<open>abort\<close>.\<close>

datatype effect = Print nat | Abort

definition LOG_LVL_ERR_PERROR :: nat where
  "LOG_LVL_ERR_PERROR = 1"

text \<open>\<open>JH_LOG_ALWAYS\<close>: a call of \<open>jh_log_print\<close>, or nothing in a production build.\<close>

definition JH_LOG_ALWAYS :: "build \<Rightarrow> nat \<Rightarrow> effect list" where
  "JH_LOG_ALWAYS b level = (if \<not> JH_PRODUCTION_LOGGING b then [Print level] else [])"

definition LOG_ERR_PERROR :: "build \<Rightarrow> effect list" where
  "LOG_ERR_PERROR b = JH_LOG_ALWAYS b LOG_LVL_ERR_PERROR"

text \<open>\<open>LOG_ERR_FATAL\<close>, both branches of \<open>#ifndef JH_VERBOSE_LOGGING\<close>.\<close>

definition LOG_ERR_FATAL :: "build \<Rightarrow> effect list" where
  "LOG_ERR_FATAL b =
     (if \<not> verbose b then LOG_ERR_PERROR b
      else LOG_ERR_PERROR b @ [Abort])"

text \<open>\<open>ASSERT_ERR(eval, ...)\<close>, both branches; \<open>eval\<close> is the value of the condition.\<close>

definition ASSERT_ERR :: "build \<Rightarrow> bool \<Rightarrow> effect list" where
  "ASSERT_ERR b eval =
     (if \<not> verbose b then
        (if \<not> eval then JH_LOG_ALWAYS b LOG_LVL_ERR_PERROR else [])
      else
        (if \<not> eval then JH_LOG_ALWAYS b LOG_LVL_ERR_PERROR @ [Abort] else []))"

section \<open>Timer (Timer.h)\<close>

text \<open>\<open>struct Timer::TimerNode\<close>: the seven data members, in declaration order.\<close>

record TimerNode =
  mEvent :: ptr
  mDispatcher :: ptr
  mListener :: ptr
  mPrivateData :: "32 word"
  mTick :: "32 word"
  mRepeatMS :: "32 word"
  mRemainingMS :: "32 word"

text \<open>
  The data members of \<open>Timer\<close> (the mutex apart). \<open>mClockThread\<close> is \<open>NULL\<close> while no
  tick thread runs. \<open>mMsPerTick\<close> is an \<open>int\<close>; it only meets \<open>uint32_t\<close> operands,
  so it is kept as the 32-bit pattern those operations see.
\<close>

record Timer =
  mClockThread :: ptr
  mMsPerTick :: "32 word"
  mStoppable :: bool
  mList :: "TimerNode list"
  mTicks :: "32 word"

text \<open>
  Modelled from the spec: the comparison of tick values made in the absent Timer.cpp.
  Specification 3: comparisons use the modular "a is not later than b",
  \<open>(int32)(a - b) <= 0\<close>.
\<close>

definition tick_not_later :: "32 word \<Rightarrow> 32 word \<Rightarrow> bool" where
  "tick_not_later a b = (sint (a - b) \<le> 0)"

text \<open>
  Modelled from the spec: the re-arming of a periodic node in the absent Timer.cpp.
  Specification 4.3: \<open>next = fireTick + periodMs / tickMs + (carry' >= tickMs ? 1 : 0)\<close>
  where \<open>carry' = carryMs + (periodMs % tickMs)\<close>; the carry is stored back reduced
  modulo the tick. All operands are \<open>uint32_t\<close>.
\<close>

definition rearm :: "32 word \<Rightarrow> TimerNode \<Rightarrow> TimerNode" where
  "rearm tickMs n =
     (let carry' = mRemainingMS n + mRepeatMS n mod tickMs
      in n\<lparr>mTick := mTick n + mRepeatMS n div tickMs + (if tickMs \<le> carry' then 1 else 0),
           mRemainingMS := carry' mod tickMs\<rparr>)"

text \<open>
  Modelled from the spec: the scan of the node list inside \<open>Timer::handleTick\<close> (absent
  Timer.cpp). Specification 4.3: each node whose fire tick is modularly not later than
  \<open>mTicks\<close> fires; a periodic node is then re-armed and kept, a one-shot node is
  dropped. The scan returns the nodes fired, in list order, and the list kept.
\<close>

fun scan :: "32 word \<Rightarrow> 32 word \<Rightarrow> TimerNode list \<Rightarrow> TimerNode list \<times> TimerNode list" where
  "scan tickMs now [] = ([], [])"
| "scan tickMs now (n # ns) =
     (let (fired, kept) = scan tickMs now ns
      in if tick_not_later (mTick n) now
         then (n # fired, if mRepeatMS n \<noteq> 0 then rearm tickMs n # kept else kept)
         else (fired, n # kept))"

text \<open>
  Modelled from the spec: \<open>Timer::handleTick\<close> (declared in Timer.h, defined in the
  absent Timer.cpp). Specification 4.3: increment \<open>mTicks\<close>, then scan the list against
  the new value. The result is the nodes fired and the new state.
\<close>

definition handleTick :: "Timer \<Rightarrow> TimerNode list \<times> Timer" where
  "handleTick t =
     (let now = mTicks t + 1;
          (fired, kept) = scan (mMsPerTick t) now (Timer.mList t)
      in (fired, t\<lparr>mTicks := now, Timer.mList := kept\<rparr>))"

text \<open>The tick thread making \<open>k\<close> ticks in a row: everything fired, and the final state.\<close>

fun run_ticks :: "nat \<Rightarrow> Timer \<Rightarrow> TimerNode list \<times> Timer" where
  "run_ticks 0 t = ([], t)"
| "run_ticks (Suc k) t =
     (let (fired, t1) = handleTick t;
          (rest, t2) = run_ticks k t1
      in (fired @ rest, t2))"

text \<open>
  Modelled from the spec: the insertion of a node into the list by
  \<open>Timer::addTimerNode\<close> (absent Timer.cpp). Specification 2 and 5: the collection is
  sorted by expiry, and nodes for the same tick stay in insertion order.
\<close>

fun insert_node :: "TimerNode \<Rightarrow> TimerNode list \<Rightarrow> TimerNode list" where
  "insert_node node [] = [node]"
| "insert_node node (n # ns) =
     (if tick_not_later (mTick n) (mTick node) then n # insert_node node ns
      else node # n # ns)"

text \<open>
  Modelled from the spec: \<open>Timer::addTimerNode\<close> (declared in Timer.h, defined in the
  absent Timer.cpp): the node joins the list of the Timer; nothing else changes.
\<close>

definition addTimerNode :: "TimerNode \<Rightarrow> Timer \<Rightarrow> Timer" where
  "addTimerNode node t = t\<lparr>Timer.mList := insert_node node (Timer.mList t)\<rparr>"

text \<open>
  Modelled from the spec: the number of ticks of a delay, \<open>ceil(delayMs / tickMs)\<close>
  (specification 4.3), as a tick count of 32 bits.
\<close>

definition delay_ticks :: "32 word \<Rightarrow> 32 word \<Rightarrow> 32 word" where
  "delay_ticks tickMs msecs = of_nat ((unat msecs + unat tickMs - 1) div unat tickMs)"

text \<open>
  Modelled from the spec: the node built by \<open>Timer::sendTimedEvent\<close> and
  \<open>Timer::sendPeriodicEvent\<close> (absent Timer.cpp). Specification 4.3: the node posts
  \<open>event\<close> to \<open>dispatcher\<close> at \<open>fireTick = currentTick + ceil(delayMs / tickMs)\<close>; a
  period of 0 means one-shot; the carry starts at 0.
\<close>

definition timed_node :: "ptr \<Rightarrow> ptr \<Rightarrow> 32 word \<Rightarrow> 32 word \<Rightarrow> Timer \<Rightarrow> TimerNode" where
  "timed_node event dispatcher msecs repeat t =
     \<lparr>mEvent = event, mDispatcher = dispatcher, mListener = NULL, mPrivateData = 0,
      mTick = mTicks t + delay_ticks (mMsPerTick t) msecs,
      mRepeatMS = repeat, mRemainingMS = 0\<rparr>"

text \<open>
  Modelled from the spec: \<open>Timer::sendTimedEvent\<close> (declared \<open>void\<close> in Timer.h,
  defined in the absent Timer.cpp). Specification 4.3: a one-shot node for \<open>msecs\<close> from
  now is added. Specification 7: adding to a stopped Timer fails, that is, adds nothing.
\<close>

definition sendTimedEvent :: "ptr \<Rightarrow> ptr \<Rightarrow> 32 word \<Rightarrow> Timer \<Rightarrow> Timer" where
  "sendTimedEvent event dispatcher msecs t =
     (if mClockThread t = NULL then t
      else addTimerNode (timed_node event dispatcher msecs 0 t) t)"

text \<open>
  Modelled from the spec: \<open>Timer::sendPeriodicEvent\<close> (declared \<open>void\<close> in Timer.h,
  defined in the absent Timer.cpp). Specification 4.3: as \<open>sendTimedEvent\<close>, with the
  period recorded in the node so that it is re-armed on each fire.
\<close>

definition sendPeriodicEvent :: "ptr \<Rightarrow> ptr \<Rightarrow> 32 word \<Rightarrow> Timer \<Rightarrow> Timer" where
  "sendPeriodicEvent event dispatcher period t =
     (if mClockThread t = NULL then t
      else addTimerNode (timed_node event dispatcher period period t) t)"

text \<open>
  Modelled from the spec: \<open>Timer::reset\<close> (declared in Timer.h, defined in the absent
  Timer.cpp). Timer.h: reset the timeout list and \<open>mTicks\<close>.
\<close>

definition reset :: "Timer \<Rightarrow> Timer" where
  "reset t = t\<lparr>Timer.mList := [], mTicks := 0\<rparr>"

text \<open>
  Modelled from the spec: \<open>Timer::doStop\<close> (declared in Timer.h, defined in the absent
  Timer.cpp). Timer.h: stop the clock thread and clean up the data associated with it.
\<close>

definition doStop :: "Timer \<Rightarrow> Timer" where
  "doStop t = reset (t\<lparr>mClockThread := NULL\<rparr>)"

text \<open>
  Modelled from the spec: \<open>Timer::stop\<close> (declared in Timer.h, defined in the absent
  Timer.cpp). Specification 4.3 and Timer.h: \<open>stop()\<close> does nothing if the Timer is not
  stoppable; otherwise the thread is stopped and all current nodes are destroyed without
  firing.
\<close>

definition stop :: "Timer \<Rightarrow> Timer" where
  "stop t = (if mStoppable t then doStop t else t)"

text \<open>
  The number of ticks after which the tick thread fires the node, searching at most
  \<open>fuel\<close> ticks ahead: \<open>Some k\<close> when the node is fired by the \<open>k\<close>-th tick from now.
\<close>

fun ticks_until_fire :: "nat \<Rightarrow> TimerNode \<Rightarrow> Timer \<Rightarrow> nat option" where
  "ticks_until_fire 0 node t = None"
| "ticks_until_fire (Suc fuel) node t =
     (let (fired, t1) = handleTick t
      in if node \<in> set fired then Some 1
         else map_option Suc (ticks_until_fire fuel node t1))"




section \<open>Properties of the listener table\<close>

lemma err_bits_iff:
  "(ev AND (POLLERR OR POLLHUP OR POLLNVAL) \<noteq> 0) =
   (ev AND POLLERR \<noteq> 0 \<or> ev AND POLLHUP \<noteq> 0 \<or> ev AND POLLNVAL \<noteq> 0)"
  by (auto simp add: bit.conj_disj_distrib or_eq_0_iff)

lemma callListeners_filter:
  "callListeners tbl fd ev =
     map (\<lambda>n. processFileEvents_call n fd ev)
       (filter (\<lambda>n. ListenerNode.mFd n = fd \<and>
                  (ucast (mEvents n) AND ev \<noteq> 0 \<or>
                   ev AND POLLERR \<noteq> 0 \<or> ev AND POLLHUP \<noteq> 0 \<or> ev AND POLLNVAL \<noteq> 0)) tbl)"
  by (induction tbl) (simp_all add: err_bits_iff)

text \<open>
  Claim C1. For a poll return reporting the bits \<open>ev\<close> on \<open>fd\<close>, \<open>callListeners\<close>
  makes exactly one invocation, in registration order, for each entry on \<open>fd\<close> whose
  registered mask intersects \<open>ev\<close> or for which \<open>ev\<close> holds ERROR, HANGUP or INVALID, and
  none for any other entry. Each invocation goes to the listener of its entry, with
  \<open>fd\<close>, the reported bits and the cookie of the entry. In particular, when \<open>ev\<close>
  holds one of the three bits, every entry on \<open>fd\<close> is invoked, whatever its mask.
\<close>

theorem callListeners_invokes:
  "callListeners tbl fd ev =
     map (\<lambda>n. \<lparr>callee = ListenerNode.mListener n, call_fd = fd, call_events = ucast ev,
                call_private_data = ListenerNode.mPrivateData n\<rparr>)
       (filter (\<lambda>n. ListenerNode.mFd n = fd \<and>
                  (ucast (mEvents n) AND ev \<noteq> 0 \<or>
                   ev AND POLLERR \<noteq> 0 \<or> ev AND POLLHUP \<noteq> 0 \<or> ev AND POLLNVAL \<noteq> 0)) tbl)
   \<and> (\<forall>n \<in> set tbl.
         ListenerNode.mFd n = fd \<and>
         (ev AND POLLERR \<noteq> 0 \<or> ev AND POLLHUP \<noteq> 0 \<or> ev AND POLLNVAL \<noteq> 0) \<longrightarrow>
         \<lparr>callee = ListenerNode.mListener n, call_fd = fd, call_events = ucast ev,
          call_private_data = ListenerNode.mPrivateData n\<rparr>
           \<in> set (callListeners tbl fd ev))"
proof -
  let ?call = "\<lambda>n. \<lparr>callee = ListenerNode.mListener n, call_fd = fd, call_events = ucast ev,
                call_private_data = ListenerNode.mPrivateData n\<rparr>"
  let ?due = "\<lambda>n. ListenerNode.mFd n = fd \<and>
                  (ucast (mEvents n) AND ev \<noteq> 0 \<or>
                   ev AND POLLERR \<noteq> 0 \<or> ev AND POLLHUP \<noteq> 0 \<or> ev AND POLLNVAL \<noteq> 0)"
  have eq: "callListeners tbl fd ev = map ?call (filter ?due tbl)"
    by (simp only: callListeners_filter processFileEvents_call_def)
  have mem: "?call n \<in> set (callListeners tbl fd ev)"
    if "n \<in> set tbl" and "ListenerNode.mFd n = fd"
      and "ev AND POLLERR \<noteq> 0 \<or> ev AND POLLHUP \<noteq> 0 \<or> ev AND POLLNVAL \<noteq> 0" for n
  proof -
    have "n \<in> set (filter ?due tbl)" using that by simp
    then have "?call n \<in> ?call ` set (filter ?due tbl)" by (rule imageI)
    then show ?thesis by (simp only: eq set_map)
  qed
  show ?thesis using eq mem by blast
qed

theorem callListeners_invokes_witness:
  "(\<lparr>ListenerNode.mFd = 7, mEvents = 1, ListenerNode.mListener = Some 100,
     ListenerNode.mPrivateData = 42\<rparr> :: ListenerNode)
      \<in> set [\<lparr>ListenerNode.mFd = 7, mEvents = 1, ListenerNode.mListener = Some 100,
               ListenerNode.mPrivateData = 42\<rparr>]
   \<and> (0x10 :: 32 word) AND POLLHUP \<noteq> 0
   \<and> ucast (1 :: 16 word) AND (0x10 :: 32 word) = 0
   \<and> callListeners
        [\<lparr>ListenerNode.mFd = 7, mEvents = 1, ListenerNode.mListener = Some 100,
          ListenerNode.mPrivateData = 42\<rparr>,
         \<lparr>ListenerNode.mFd = 8, mEvents = 1, ListenerNode.mListener = Some 200,
          ListenerNode.mPrivateData = 43\<rparr>] 7 0x10
       = [\<lparr>callee = Some 100, call_fd = 7, call_events = 0x10, call_private_data = 42\<rparr>]"
proof -
  let ?tbl = "[\<lparr>ListenerNode.mFd = 7, mEvents = 1, ListenerNode.mListener = Some 100,
          ListenerNode.mPrivateData = 42\<rparr>,
         \<lparr>ListenerNode.mFd = 8, mEvents = 1, ListenerNode.mListener = Some 200,
          ListenerNode.mPrivateData = 43\<rparr>]"
  note main = callListeners_invokes [of ?tbl 7 "0x10"]
  from main have eq: "callListeners ?tbl 7 0x10 =
      map (\<lambda>n. \<lparr>callee = ListenerNode.mListener n, call_fd = 7, call_events = ucast (0x10 :: 32 word),
                call_private_data = ListenerNode.mPrivateData n\<rparr>)
       (filter (\<lambda>n. ListenerNode.mFd n = 7 \<and>
                  (ucast (mEvents n) AND (0x10 :: 32 word) \<noteq> 0 \<or>
                   0x10 AND POLLERR \<noteq> 0 \<or> 0x10 AND POLLHUP \<noteq> 0 \<or> 0x10 AND POLLNVAL \<noteq> 0))
          ?tbl)"
    by (rule conjunct1)
  have "callListeners ?tbl 7 0x10 =
      [\<lparr>callee = Some 100, call_fd = 7, call_events = 0x10, call_private_data = 42\<rparr>]"
    unfolding eq by (simp add: POLLHUP_def)
  then show ?thesis by (simp add: POLLHUP_def)
qed

text \<open>
  Claim C2. Two listener nodes compare equal exactly when their descriptors are the same
  and their listeners are the same or one of the two listeners is the null sentinel.
  In particular a node whose listener is null compares equal, from either side, to every
  node on the same descriptor.
\<close>

theorem ListenerNode_eq_iff:
  "ListenerNode_eq a b =
     (ListenerNode.mFd a = ListenerNode.mFd b \<and>
      (ListenerNode.mListener a = ListenerNode.mListener b \<or>
       ListenerNode.mListener a = NULL \<or> ListenerNode.mListener b = NULL))
   \<and> ListenerNode_eq
        (a\<lparr>ListenerNode.mFd := ListenerNode.mFd b, ListenerNode.mListener := NULL\<rparr>) b
   \<and> ListenerNode_eq b
        (a\<lparr>ListenerNode.mFd := ListenerNode.mFd b, ListenerNode.mListener := NULL\<rparr>)"
  by (auto simp: ListenerNode_eq_def)

text \<open>
  Claim C5, as stated, fails: \<open>addListener\<close> is declared \<open>void\<close>, so a call on a full
  table gives its caller the same value as a call that registers its entry; no error
  reaches the caller.
\<close>

theorem addListener_void_counterexample:
  "fst (addListener 9 1 (Some 2) 0
         \<lparr>Selector.mList = replicate 64 \<lparr>ListenerNode.mFd = 3, mEvents = 1,
             ListenerNode.mListener = Some 1, ListenerNode.mPrivateData = 0\<rparr>,
          mUpdateFds = False\<rparr>)
     = fst (addListener 9 1 (Some 2) 0 \<lparr>Selector.mList = [], mUpdateFds = False\<rparr>)
   \<and> Selector.mList (snd (addListener 9 1 (Some 2) 0
         \<lparr>Selector.mList = [], mUpdateFds = False\<rparr>))
     = [\<lparr>ListenerNode.mFd = 9, mEvents = 1, ListenerNode.mListener = Some 2,
         ListenerNode.mPrivateData = 0\<rparr>]
   \<and> snd (addListener 9 1 (Some 2) 0
         \<lparr>Selector.mList = replicate 64 \<lparr>ListenerNode.mFd = 3, mEvents = 1,
             ListenerNode.mListener = Some 1, ListenerNode.mPrivateData = 0\<rparr>,
          mUpdateFds = False\<rparr>)
     = \<lparr>Selector.mList = replicate 64 \<lparr>ListenerNode.mFd = 3, mEvents = 1,
             ListenerNode.mListener = Some 1, ListenerNode.mPrivateData = 0\<rparr>,
          mUpdateFds = False\<rparr>"
  by (simp add: addListener_def kMaxPollFds_def)

text \<open>
  Claim C5, amended. When the listener table of a Selector already holds
  \<open>kMaxPollFds\<close> (64) entries, a further \<open>addListener\<close> registers nothing and leaves
  the Selector as it was; its caller receives no status. Below that size the call
  appends the entry.
\<close>

theorem addListener_full:
  "(kMaxPollFds \<le> length (Selector.mList s) \<longrightarrow>
      addListener fd events listener private_data s = ((), s))
   \<and> (length (Selector.mList s) < kMaxPollFds \<longrightarrow>
      addListener fd events listener private_data s =
        ((), s\<lparr>Selector.mList := Selector.mList s @
                 [\<lparr>ListenerNode.mFd = fd, mEvents = events, ListenerNode.mListener = listener,
                   ListenerNode.mPrivateData = private_data\<rparr>],
               mUpdateFds := True\<rparr>))"
  by (simp add: addListener_def)

theorem addListener_full_witness:
  "kMaxPollFds \<le> length (Selector.mList
       \<lparr>Selector.mList = replicate 64 \<lparr>ListenerNode.mFd = 3, mEvents = 1,
           ListenerNode.mListener = Some 1, ListenerNode.mPrivateData = 0\<rparr>,
        mUpdateFds = False\<rparr>)
   \<and> Selector.mList (snd (addListener 9 1 (Some 2) 0
       \<lparr>Selector.mList = replicate 64 \<lparr>ListenerNode.mFd = 3, mEvents = 1,
           ListenerNode.mListener = Some 1, ListenerNode.mPrivateData = 0\<rparr>,
        mUpdateFds = False\<rparr>))
     = replicate 64 \<lparr>ListenerNode.mFd = 3, mEvents = 1,
           ListenerNode.mListener = Some 1, ListenerNode.mPrivateData = 0\<rparr>
   \<and> length (Selector.mList \<lparr>Selector.mList = [], mUpdateFds = False\<rparr>) < kMaxPollFds
   \<and> Selector.mList (snd (addListener 9 1 (Some 2) 0
         \<lparr>Selector.mList = [], mUpdateFds = False\<rparr>))
     = [\<lparr>ListenerNode.mFd = 9, mEvents = 1, ListenerNode.mListener = Some 2,
         ListenerNode.mPrivateData = 0\<rparr>]"
  using addListener_full
    [of "\<lparr>Selector.mList = replicate 64 \<lparr>ListenerNode.mFd = 3, mEvents = 1,
           ListenerNode.mListener = Some 1, ListenerNode.mPrivateData = 0\<rparr>,
        mUpdateFds = False\<rparr>" 9 1 "Some 2" 0]
    addListener_full [of "\<lparr>Selector.mList = [], mUpdateFds = False\<rparr>" 9 1 "Some 2" 0]
  by (simp add: kMaxPollFds_def)

section \<open>Properties of FdReaderWriter\<close>

lemma registered_removeListener:
  "\<not> registered fd listener (removeListener fd listener s)"
  by (auto simp: registered_def removeListener_def list_ex_iff ListenerNode_eq_def
      ListenerNode_probe_def)

lemma registered_addListener:
  "length (Selector.mList s) < kMaxPollFds \<Longrightarrow>
     registered fd listener (snd (addListener fd events listener private_data s))"
  by (simp add: registered_def addListener_def)

lemma length_removeListener:
  "length (Selector.mList (removeListener fd listener s)) \<le> length (Selector.mList s)"
  by (simp add: removeListener_def)

lemma call_removeListener_other:
  "a \<noteq> old \<Longrightarrow> call_removeListener old fd listener h a = h a"
  by (simp add: call_removeListener_def)

lemma call_addListener_other:
  "a \<noteq> new \<Longrightarrow> call_addListener new fd ev listener pd h a = h a"
  by (simp add: call_addListener_def)

text \<open>
  Claim C9, as stated, fails: \<open>setSelector\<close> removes from the previous selector the
  listener it is given now, not the one it added before. From the constructor's state,
  a call with a first listener on selector 1, a call with a second listener on selector
  2 and a call with the first listener on selector 3 leave the first listener
  registered with the selectors 1 and 3.
\<close>

theorem setSelector_other_listener_counterexample:
  "registered 4 (Some 30)
     (fst (snd (setSelector (Some 30) (Some 3) 1
        (setSelector (Some 40) (Some 2) 1
          (setSelector (Some 30) (Some 1) 1
            (\<lparr>FdReaderWriter.mFd = 4, mSelector = NULL\<rparr>, no_listeners, []))))) 1)
   \<and> registered 4 (Some 30)
     (fst (snd (setSelector (Some 30) (Some 3) 1
        (setSelector (Some 40) (Some 2) 1
          (setSelector (Some 30) (Some 1) 1
            (\<lparr>FdReaderWriter.mFd = 4, mSelector = NULL\<rparr>, no_listeners, []))))) 3)
   \<and> snd (snd (setSelector (Some 30) (Some 3) 1
        (setSelector (Some 40) (Some 2) 1
          (setSelector (Some 30) (Some 1) 1
            (\<lparr>FdReaderWriter.mFd = 4, mSelector = NULL\<rparr>, no_listeners, [])))))
     = [AddListener 1 4 1 (Some 30) 0,
        RemoveListener 1 4 (Some 40), AddListener 2 4 1 (Some 40) 0,
        RemoveListener 2 4 (Some 30), AddListener 3 4 1 (Some 30) 0]"
  by (simp add: setSelector_def call_removeListener_def call_addListener_def
      removeListener_def addListener_def ListenerNode_eq_def ListenerNode_probe_def
      kMaxPollFds_def NULL_def no_listeners_def registered_def)

text \<open>
  Claim C9, amended. On an object with a valid descriptor, \<open>setSelector\<close> first removes
  the listener from the previous selector, if there was one, then stores the new
  selector in \<open>mSelector\<close>, then adds the listener to the new selector, if it is not
  null; these are the only calls it makes, no other selector changes, and the listener
  is registered with the new selector afterwards unless that table was full. If the
  listener was registered on this descriptor with no selector other than the previous
  one, it is afterwards registered with no selector other than the new one.
\<close>

theorem setSelector_open_fd:
  assumes "FdReaderWriter.mFd this \<noteq> - 1"
    and "setSelector listener selector subEvents (this, h, tr) = (this', h', tr')"
  shows "mSelector this' = selector
    \<and> FdReaderWriter.mFd this' = FdReaderWriter.mFd this
    \<and> tr' = tr
        @ (case mSelector this of None \<Rightarrow> []
           | Some old \<Rightarrow> [RemoveListener old (FdReaderWriter.mFd this) listener])
        @ (case selector of None \<Rightarrow> []
           | Some new \<Rightarrow> [AddListener new (FdReaderWriter.mFd this) subEvents listener 0])
    \<and> (\<forall>old. mSelector this = Some old \<and> selector \<noteq> Some old \<longrightarrow>
          h' old = removeListener (FdReaderWriter.mFd this) listener (h old))
    \<and> (\<forall>new. selector = Some new \<longrightarrow>
          h' new = snd (addListener (FdReaderWriter.mFd this) subEvents listener 0
                     (if mSelector this = Some new
                      then removeListener (FdReaderWriter.mFd this) listener (h new)
                      else h new)))
    \<and> (\<forall>a. mSelector this \<noteq> Some a \<and> selector \<noteq> Some a \<longrightarrow> h' a = h a)
    \<and> (\<forall>new. selector = Some new \<and> length (Selector.mList (h new)) < kMaxPollFds \<longrightarrow>
          registered (FdReaderWriter.mFd this) listener (h' new))
    \<and> ((\<forall>a. registered (FdReaderWriter.mFd this) listener (h a) \<longrightarrow> mSelector this = Some a)
        \<longrightarrow> (\<forall>a. registered (FdReaderWriter.mFd this) listener (h' a) \<longrightarrow> selector = Some a))"
proof -
  let ?fd = "FdReaderWriter.mFd this"
  define h1 where "h1 = (case mSelector this of None \<Rightarrow> h
                         | Some old \<Rightarrow> call_removeListener old ?fd listener h)"
  have st: "this' = this\<lparr>mSelector := selector\<rparr>"
    and h': "h' = (case selector of None \<Rightarrow> h1
                  | Some new \<Rightarrow> call_addListener new ?fd subEvents listener 0 h1)"
    and tr': "tr' = tr
        @ (case mSelector this of None \<Rightarrow> []
           | Some old \<Rightarrow> [RemoveListener old ?fd listener])
        @ (case selector of None \<Rightarrow> []
           | Some new \<Rightarrow> [AddListener new ?fd subEvents listener 0])"
    using assms by (auto simp: setSelector_def h1_def Let_def split: option.splits)
  have h1_at: "h1 a = (if mSelector this = Some a then removeListener ?fd listener (h a)
                       else h a)" for a
    by (cases "mSelector this") (simp_all add: h1_def call_removeListener_def)
  have h'_at: "h' a = (if selector = Some a
                       then snd (addListener ?fd subEvents listener 0 (h1 a)) else h1 a)" for a
    by (cases selector) (simp_all add: h' call_addListener_def)
  have old: "h' old = removeListener ?fd listener (h old)"
    if "mSelector this = Some old" "selector \<noteq> Some old" for old
    using that by (simp add: h'_at h1_at)
  have new: "h' new = snd (addListener ?fd subEvents listener 0
                     (if mSelector this = Some new then removeListener ?fd listener (h new)
                      else h new))"
    if "selector = Some new" for new
    using that by (simp add: h'_at h1_at)
  have other: "h' a = h a" if "mSelector this \<noteq> Some a" "selector \<noteq> Some a" for a
    using that by (simp add: h'_at h1_at)
  have added: "registered ?fd listener (h' new)"
    if "selector = Some new" "length (Selector.mList (h new)) < kMaxPollFds" for new
  proof -
    have "length (Selector.mList (h1 new)) \<le> length (Selector.mList (h new))"
      by (simp add: h1_at length_removeListener)
    then have "length (Selector.mList (h1 new)) < kMaxPollFds"
      using that(2) by simp
    then show ?thesis
      using that(1) by (simp add: h'_at registered_addListener)
  qed
  have inv: "selector = Some a"
    if before: "\<forall>a. registered ?fd listener (h a) \<longrightarrow> mSelector this = Some a"
      and reg: "registered ?fd listener (h' a)" for a
  proof (rule ccontr)
    assume neq: "selector \<noteq> Some a"
    then have r1: "registered ?fd listener (h1 a)"
      using reg by (simp add: h'_at)
    show False
    proof (cases "mSelector this = Some a")
      case True
      then show ?thesis
        using r1 by (simp add: h1_at registered_removeListener)
    next
      case False
      then have "registered ?fd listener (h a)"
        using r1 by (simp add: h1_at)
      then show ?thesis using before False by blast
    qed
  qed
  have sel: "mSelector this' = selector" and fd: "FdReaderWriter.mFd this' = ?fd"
    by (simp_all add: st)
  show ?thesis
    using sel fd tr' old new other added inv by blast
qed

theorem setSelector_open_fd_witness:
  "FdReaderWriter.mFd \<lparr>FdReaderWriter.mFd = 4, mSelector = Some 1\<rparr> \<noteq> - 1
   \<and> mSelector (fst (setSelector (Some 9) (Some 2) 1
        (\<lparr>FdReaderWriter.mFd = 4, mSelector = Some 1\<rparr>,
         no_listeners
           (1 := \<lparr>Selector.mList = [\<lparr>ListenerNode.mFd = 4, mEvents = 1,
                     ListenerNode.mListener = Some 9, ListenerNode.mPrivateData = 0\<rparr>],
                  mUpdateFds = False\<rparr>), []))) = Some 2
   \<and> snd (snd (setSelector (Some 9) (Some 2) 1
        (\<lparr>FdReaderWriter.mFd = 4, mSelector = Some 1\<rparr>,
         no_listeners
           (1 := \<lparr>Selector.mList = [\<lparr>ListenerNode.mFd = 4, mEvents = 1,
                     ListenerNode.mListener = Some 9, ListenerNode.mPrivateData = 0\<rparr>],
                  mUpdateFds = False\<rparr>), [])))
       = [RemoveListener 1 4 (Some 9), AddListener 2 4 1 (Some 9) 0]
   \<and> registered 4 (Some 9) (fst (snd (setSelector (Some 9) (Some 2) 1
        (\<lparr>FdReaderWriter.mFd = 4, mSelector = Some 1\<rparr>,
         no_listeners
           (1 := \<lparr>Selector.mList = [\<lparr>ListenerNode.mFd = 4, mEvents = 1,
                     ListenerNode.mListener = Some 9, ListenerNode.mPrivateData = 0\<rparr>],
                  mUpdateFds = False\<rparr>), []))) 2)
   \<and> \<not> registered 4 (Some 9) (fst (snd (setSelector (Some 9) (Some 2) 1
        (\<lparr>FdReaderWriter.mFd = 4, mSelector = Some 1\<rparr>,
         no_listeners
           (1 := \<lparr>Selector.mList = [\<lparr>ListenerNode.mFd = 4, mEvents = 1,
                     ListenerNode.mListener = Some 9, ListenerNode.mPrivateData = 0\<rparr>],
                  mUpdateFds = False\<rparr>), []))) 1)"
proof -
  let ?rw = "\<lparr>FdReaderWriter.mFd = 4, mSelector = Some 1\<rparr>"
  let ?node = "\<lparr>ListenerNode.mFd = 4, mEvents = 1,
                     ListenerNode.mListener = Some 9, ListenerNode.mPrivateData = 0\<rparr>"
  let ?h = "no_listeners (1 := \<lparr>Selector.mList = [?node], mUpdateFds = False\<rparr>)"
  obtain rw' h' tr' where run: "setSelector (Some 9) (Some 2) 1 (?rw, ?h, []) = (rw', h', tr')"
    by (cases "setSelector (Some 9) (Some 2) 1 (?rw, ?h, [])")
  have ne: "FdReaderWriter.mFd ?rw \<noteq> - 1" by simp
  have before: "\<forall>a. registered (FdReaderWriter.mFd ?rw) (Some 9) (?h a) \<longrightarrow>
      mSelector ?rw = Some a"
    by (simp add: registered_def no_listeners_def)
  have room: "length (Selector.mList (?h 2)) < kMaxPollFds"
    by (simp add: no_listeners_def kMaxPollFds_def)
  note main = setSelector_open_fd [OF ne run]
  note sel = main [THEN conjunct1]
  note tr = main [THEN conjunct2, THEN conjunct2, THEN conjunct1]
  note add = main [THEN conjunct2, THEN conjunct2, THEN conjunct2, THEN conjunct2,
      THEN conjunct2, THEN conjunct2, THEN conjunct1, rule_format]
  note inv = main [THEN conjunct2, THEN conjunct2, THEN conjunct2, THEN conjunct2,
      THEN conjunct2, THEN conjunct2, THEN conjunct2, rule_format]
  have r2: "registered 4 (Some 9) (h' 2)"
    using add [of 2] room by simp
  have r1: "\<not> registered 4 (Some 9) (h' 1)"
  proof
    assume "registered 4 (Some 9) (h' 1)"
    then have "registered (FdReaderWriter.mFd ?rw) (Some 9) (h' 1)" by simp
    from inv [OF before [rule_format] this] show False by simp
  qed
  show ?thesis
    unfolding run using sel tr r1 r2 by simp
qed

text \<open>
  Claim C10. On an object whose descriptor is \<open>-1\<close>, \<open>setSelector\<close> changes nothing:
  \<open>mSelector\<close> keeps its value, the selectors are untouched and no call is added to the
  trace, whatever the arguments.
\<close>

theorem setSelector_closed_fd:
  "FdReaderWriter.mFd this = - 1 \<Longrightarrow>
     setSelector listener selector subEvents (this, h, tr) = (this, h, tr)"
  by (simp add: setSelector_def)

theorem setSelector_closed_fd_witness:
  "FdReaderWriter.mFd \<lparr>FdReaderWriter.mFd = - 1, mSelector = Some 1\<rparr> = - 1
   \<and> setSelector (Some 5) (Some 2) 1
        (\<lparr>FdReaderWriter.mFd = - 1, mSelector = Some 1\<rparr>, no_listeners, []) =
       (\<lparr>FdReaderWriter.mFd = - 1, mSelector = Some 1\<rparr>, no_listeners, [])"
  using setSelector_closed_fd
    [of "\<lparr>FdReaderWriter.mFd = - 1, mSelector = Some 1\<rparr>" "Some 5" "Some 2" 1
      no_listeners "[]"]
  by simp

section \<open>Properties of the fatal error handlers\<close>

text \<open>
  Claim C8, as stated, fails: in a build without \<open>JH_VERBOSE_LOGGING\<close> a failed
  \<open>ASSERT_ERR\<close> and \<open>LOG_ERR_FATAL\<close> print the message and return; \<open>abort\<close> is not
  called.
\<close>

theorem fatal_handlers_release_counterexample:
  "LOG_ERR_FATAL \<lparr>JH_VERBOSE_LOGGING = False, JH_PRODUCTION_LOGGING = False\<rparr>
     = [Print LOG_LVL_ERR_PERROR]
   \<and> ASSERT_ERR \<lparr>JH_VERBOSE_LOGGING = False, JH_PRODUCTION_LOGGING = False\<rparr> False
     = [Print LOG_LVL_ERR_PERROR]
   \<and> Abort \<notin> set (LOG_ERR_FATAL \<lparr>JH_VERBOSE_LOGGING = False, JH_PRODUCTION_LOGGING = False\<rparr>)
   \<and> Abort \<notin> set (ASSERT_ERR \<lparr>JH_VERBOSE_LOGGING = False, JH_PRODUCTION_LOGGING = False\<rparr> False)"
  by (simp add: LOG_ERR_FATAL_def ASSERT_ERR_def LOG_ERR_PERROR_def JH_LOG_ALWAYS_def verbose_def)

text \<open>
  Claim C8, amended. In a build where \<open>JH_VERBOSE_LOGGING\<close> is in effect, a failed
  \<open>ASSERT_ERR\<close> and \<open>LOG_ERR_FATAL\<close> print the error and then abort the process. In every
  other build they never abort: they print the error, unless \<open>JH_PRODUCTION_LOGGING\<close> is
  defined, in which case they do nothing. An \<open>ASSERT_ERR\<close> whose condition holds does
  nothing in any build.
\<close>

theorem fatal_handlers_by_build:
  "(verbose b \<longrightarrow>
      LOG_ERR_FATAL b = [Print LOG_LVL_ERR_PERROR, Abort] \<and>
      ASSERT_ERR b False = [Print LOG_LVL_ERR_PERROR, Abort])
   \<and> (\<not> verbose b \<longrightarrow>
      Abort \<notin> set (LOG_ERR_FATAL b) \<and> Abort \<notin> set (ASSERT_ERR b False) \<and>
      LOG_ERR_FATAL b = (if JH_PRODUCTION_LOGGING b then [] else [Print LOG_LVL_ERR_PERROR]) \<and>
      ASSERT_ERR b False = (if JH_PRODUCTION_LOGGING b then [] else [Print LOG_LVL_ERR_PERROR]))
   \<and> ASSERT_ERR b True = []"
  by (auto simp: LOG_ERR_FATAL_def ASSERT_ERR_def LOG_ERR_PERROR_def JH_LOG_ALWAYS_def verbose_def)

theorem fatal_handlers_by_build_witness:
  "verbose \<lparr>JH_VERBOSE_LOGGING = True, JH_PRODUCTION_LOGGING = False\<rparr>
   \<and> LOG_ERR_FATAL \<lparr>JH_VERBOSE_LOGGING = True, JH_PRODUCTION_LOGGING = False\<rparr>
       = [Print LOG_LVL_ERR_PERROR, Abort]
   \<and> ASSERT_ERR \<lparr>JH_VERBOSE_LOGGING = True, JH_PRODUCTION_LOGGING = False\<rparr> False
       = [Print LOG_LVL_ERR_PERROR, Abort]
   \<and> \<not> verbose \<lparr>JH_VERBOSE_LOGGING = True, JH_PRODUCTION_LOGGING = True\<rparr>
   \<and> LOG_ERR_FATAL \<lparr>JH_VERBOSE_LOGGING = True, JH_PRODUCTION_LOGGING = True\<rparr> = []
   \<and> ASSERT_ERR \<lparr>JH_VERBOSE_LOGGING = True, JH_PRODUCTION_LOGGING = True\<rparr> False = []"
  using fatal_handlers_by_build [of "\<lparr>JH_VERBOSE_LOGGING = True, JH_PRODUCTION_LOGGING = False\<rparr>"]
    fatal_handlers_by_build [of "\<lparr>JH_VERBOSE_LOGGING = True, JH_PRODUCTION_LOGGING = True\<rparr>"]
  by (simp add: verbose_def)

section \<open>Properties of the Timer\<close>

subsection \<open>Tick comparison and the tick thread\<close>

lemma sint_32:
  "sint (w::32 word) = (if uint w < 2^31 then uint w else uint w - 2^32)"
proof -
  have s: "sint w = (uint w + 2^31) mod 2^32 - 2^31"
    by (simp add: sint_uint signed_take_bit_eq_take_bit_shift take_bit_eq_mod)
  have b: "0 \<le> uint w" "uint w < 2^32"
    using uint_lt2p [of w] by simp_all
  show ?thesis
  proof (cases "uint w < 2^31")
    case True
    then have "(uint w + 2^31) mod 2^32 = uint w + 2^31"
      using b by (simp add: mod_pos_pos_trivial)
    then show ?thesis using True s by simp
  next
    case False
    have "(uint w + 2^31) mod 2^32 = (uint w + 2^31 - 2^32) mod 2^32"
      by (metis mod_diff_right_eq mod_self diff_zero)
    also have "\<dots> = uint w + 2^31 - 2^32"
      using b False by (simp add: mod_pos_pos_trivial)
    finally show ?thesis using False s by simp
  qed
qed

lemma sint_le_0_iff: "(sint (w::32 word) \<le> 0) = (unat w = 0 \<or> 2^31 \<le> unat w)"
proof -
  define n where "n = unat w"
  have u: "uint w = int n" unfolding n_def by (rule uint_nat)
  have "n < 2^32" unfolding n_def using unsigned_less [of w, where 'a = nat] by simp
  then show ?thesis unfolding sint_32 u n_def [symmetric] by auto
qed


lemma tick_not_later_iff:
  "tick_not_later a b = (unat (a - b) = 0 \<or> 2^31 \<le> unat (a - b))"
  by (simp only: tick_not_later_def sint_le_0_iff)

lemma unat_of_nat_32: "k < 2^32 \<Longrightarrow> unat (of_nat k :: 32 word) = k"
  by (simp add: unat_of_nat)

lemma tick_not_later_behind:
  assumes "k \<le> 2^31"
  shows "tick_not_later f (f + of_nat k)"
proof -
  have k: "unat (of_nat k :: 32 word) = k"
    using assms by (intro unat_of_nat_32) simp
  have "f - (f + of_nat k) = (0::32 word) - of_nat k" by simp
  then have "unat (f - (f + of_nat k)) = (if k = 0 then 0 else 2^32 - k)"
    using k by (simp only: unat_sub_if') simp
  then show ?thesis
    using assms by (auto simp add: tick_not_later_iff)
qed

lemma tick_not_later_ahead:
  assumes "0 < k" "k < 2^31"
  shows "\<not> tick_not_later (f + of_nat k) f"
proof -
  have "unat (of_nat k :: 32 word) = k"
    using assms by (intro unat_of_nat_32) simp
  then show ?thesis
    using assms by (simp add: tick_not_later_iff)
qed

lemma scan_fired: "fst (scan T now ns) = filter (\<lambda>n. tick_not_later (mTick n) now) ns"
  by (induction ns) (auto split: prod.splits)

lemma scan_kept:
  "n \<in> set ns \<Longrightarrow> \<not> tick_not_later (mTick n) now \<Longrightarrow> n \<in> set (snd (scan T now ns))"
  by (induction ns) (auto split: prod.splits)

lemma handleTick_fired:
  "fst (handleTick t) = filter (\<lambda>n. tick_not_later (mTick n) (mTicks t + 1)) (Timer.mList t)"
  using scan_fired [of "mMsPerTick t" "mTicks t + 1" "Timer.mList t"]
  by (cases "scan (mMsPerTick t) (mTicks t + 1) (Timer.mList t)")
    (simp add: handleTick_def Let_def)

lemma handleTick_state:
  "snd (handleTick t) =
     t\<lparr>mTicks := mTicks t + 1,
       Timer.mList := snd (scan (mMsPerTick t) (mTicks t + 1) (Timer.mList t))\<rparr>"
  by (cases "scan (mMsPerTick t) (mTicks t + 1) (Timer.mList t)")
    (simp add: handleTick_def Let_def)

lemma handleTick_empty:
  "Timer.mList t = [] \<Longrightarrow> handleTick t = ([], t\<lparr>mTicks := mTicks t + 1\<rparr>)"
  by (simp add: handleTick_def)

lemma run_ticks_empty: "Timer.mList t = [] \<Longrightarrow> fst (run_ticks k t) = []"
proof (induction k arbitrary: t)
  case 0
  then show ?case by simp
next
  case (Suc k)
  then have "fst (run_ticks k (t\<lparr>mTicks := mTicks t + 1\<rparr>)) = []" by simp
  then show ?case
    using Suc.prems by (simp add: handleTick_empty split: prod.splits)
qed



text \<open>
  Claim C6. The test that decides whether a node is due is
  \<open>(int32)(a - b) <= 0\<close>, and \<open>handleTick\<close> fires exactly the nodes that pass it
  against the incremented tick counter. The test is right across wrap-around: a fire
  tick \<open>f\<close> is not later than the counter value \<open>f + k\<close> for every \<open>k\<close> up to \<open>2^31\<close>,
  and a fire tick \<open>f + k\<close> with \<open>0 < k < 2^31\<close> is later than the counter value \<open>f\<close>,
  whether or not the addition wraps.
\<close>

theorem tick_not_later_modular:
  "tick_not_later a b = (sint (a - b) \<le> 0)
   \<and> (\<forall>k \<le> 2^31. tick_not_later f (f + of_nat k))
   \<and> (\<forall>k. 0 < k \<and> k < 2^31 \<longrightarrow> \<not> tick_not_later (f + of_nat k) f)
   \<and> fst (handleTick t) =
       filter (\<lambda>n. sint (mTick n - (mTicks t + 1)) \<le> 0) (Timer.mList t)"
  using tick_not_later_behind tick_not_later_ahead
  by (simp add: handleTick_fired) (simp add: tick_not_later_def)

theorem tick_not_later_modular_witness:
  "(32 :: nat) \<le> 2^31 \<and> 0 < (32 :: nat) \<and> (32 :: nat) < 2^31
   \<and> (0xFFFFFFF0 :: 32 word) + of_nat 32 = 0x10
   \<and> tick_not_later 0xFFFFFFF0 0x10
   \<and> \<not> tick_not_later 0x10 0xFFFFFFF0
   \<and> \<not> (0xFFFFFFF0 :: 32 word) \<le> 0x10"
proof -
  have s: "(0xFFFFFFF0 :: 32 word) + of_nat 32 = 0x10" by simp
  note m = tick_not_later_modular [of 0 0 "0xFFFFFFF0"
      "\<lparr>mClockThread = NULL, mMsPerTick = 1, mStoppable = True, mList = [], mTicks = 0\<rparr>"]
  from m have a: "\<forall>k \<le> 2^31. tick_not_later 0xFFFFFFF0 (0xFFFFFFF0 + of_nat k)"
    by (elim conjE)
  from m have b: "\<forall>k. 0 < k \<and> k < 2^31 \<longrightarrow>
      \<not> tick_not_later (0xFFFFFFF0 + of_nat k) 0xFFFFFFF0"
    by (elim conjE)
  from a [rule_format, of 32] b [rule_format, of 32]
  have "tick_not_later 0xFFFFFFF0 (0xFFFFFFF0 + of_nat 32)"
    and "\<not> tick_not_later (0xFFFFFFF0 + of_nat 32) 0xFFFFFFF0"
    by simp_all
  then show ?thesis unfolding s by simp
qed

text \<open>
  Claim C7. On a Timer that is not stoppable, \<open>stop\<close> changes nothing: the tick thread
  and the node list stay as they are. On a stoppable Timer, \<open>stop\<close> ends the tick thread
  and empties the node list, and no later tick fires anything.
\<close>

theorem stop_discards:
  "(\<not> mStoppable t \<longrightarrow> stop t = t)
   \<and> (mStoppable t \<longrightarrow>
        Timer.mList (stop t) = [] \<and> mClockThread (stop t) = NULL \<and>
        (\<forall>k. fst (run_ticks k (stop t)) = []))"
proof -
  have "Timer.mList (doStop t) = []" by (simp add: doStop_def reset_def)
  then have "fst (run_ticks k (doStop t)) = []" for k by (rule run_ticks_empty)
  then show ?thesis by (simp add: stop_def doStop_def reset_def)
qed

theorem stop_discards_witness:
  "\<not> mStoppable \<lparr>mClockThread = Some 1, mMsPerTick = 10, mStoppable = False,
        mList = [\<lparr>mEvent = Some 5, mDispatcher = Some 6, mListener = NULL, mPrivateData = 0,
                  mTick = 3, mRepeatMS = 0, mRemainingMS = 0\<rparr>], mTicks = 2\<rparr>
   \<and> stop \<lparr>mClockThread = Some 1, mMsPerTick = 10, mStoppable = False,
        mList = [\<lparr>mEvent = Some 5, mDispatcher = Some 6, mListener = NULL, mPrivateData = 0,
                  mTick = 3, mRepeatMS = 0, mRemainingMS = 0\<rparr>], mTicks = 2\<rparr>
      = \<lparr>mClockThread = Some 1, mMsPerTick = 10, mStoppable = False,
        mList = [\<lparr>mEvent = Some 5, mDispatcher = Some 6, mListener = NULL, mPrivateData = 0,
                  mTick = 3, mRepeatMS = 0, mRemainingMS = 0\<rparr>], mTicks = 2\<rparr>
   \<and> mStoppable \<lparr>mClockThread = Some 1, mMsPerTick = 10, mStoppable = True,
        mList = [\<lparr>mEvent = Some 5, mDispatcher = Some 6, mListener = NULL, mPrivateData = 0,
                  mTick = 3, mRepeatMS = 0, mRemainingMS = 0\<rparr>], mTicks = 2\<rparr>
   \<and> fst (run_ticks 5 (stop \<lparr>mClockThread = Some 1, mMsPerTick = 10, mStoppable = True,
        mList = [\<lparr>mEvent = Some 5, mDispatcher = Some 6, mListener = NULL, mPrivateData = 0,
                  mTick = 3, mRepeatMS = 0, mRemainingMS = 0\<rparr>], mTicks = 2\<rparr>)) = []
   \<and> fst (run_ticks 5 \<lparr>mClockThread = Some 1, mMsPerTick = 10, mStoppable = True,
        mList = [\<lparr>mEvent = Some 5, mDispatcher = Some 6, mListener = NULL, mPrivateData = 0,
                  mTick = 3, mRepeatMS = 0, mRemainingMS = 0\<rparr>], mTicks = 2\<rparr>)
      = [\<lparr>mEvent = Some 5, mDispatcher = Some 6, mListener = NULL, mPrivateData = 0,
                  mTick = 3, mRepeatMS = 0, mRemainingMS = 0\<rparr>]"
  using stop_discards [of "\<lparr>mClockThread = Some 1, mMsPerTick = 10, mStoppable = False,
        mList = [\<lparr>mEvent = Some 5, mDispatcher = Some 6, mListener = NULL, mPrivateData = 0,
                  mTick = 3, mRepeatMS = 0, mRemainingMS = 0\<rparr>], mTicks = 2\<rparr>"]
    stop_discards [of "\<lparr>mClockThread = Some 1, mMsPerTick = 10, mStoppable = True,
        mList = [\<lparr>mEvent = Some 5, mDispatcher = Some 6, mListener = NULL, mPrivateData = 0,
                  mTick = 3, mRepeatMS = 0, mRemainingMS = 0\<rparr>], mTicks = 2\<rparr>"]
  by (simp add: numeral_eq_Suc handleTick_def tick_not_later_def)

subsection \<open>One-shot nodes\<close>

text \<open>
  A one-shot node whose delay is at most \<open>2^31\<close> ticks is fired by the tick thread
  exactly \<open>max 1 (ceil(delayMs / tickMs))\<close> ticks after it was added: the tick counter is
  incremented before the scan, so a delay of no tick still waits for one.
\<close>

lemma ticks_until_fire_exact:
  "node \<in> set (Timer.mList t) \<Longrightarrow> unat (mTick node - mTicks t) = c \<Longrightarrow> 1 \<le> c \<Longrightarrow>
   c \<le> 2^31 \<Longrightarrow> c \<le> fuel \<Longrightarrow> ticks_until_fire fuel node t = Some c"
proof (induction fuel arbitrary: t c)
  case 0
  then show ?case by simp
next
  case (Suc fuel)
  obtain fired t1 where ht: "handleTick t = (fired, t1)" by (cases "handleTick t")
  have fired: "fired = filter (\<lambda>n. tick_not_later (mTick n) (mTicks t + 1)) (Timer.mList t)"
    using handleTick_fired [of t] ht by simp
  have t1: "t1 = t\<lparr>mTicks := mTicks t + 1,
       Timer.mList := snd (scan (mMsPerTick t) (mTicks t + 1) (Timer.mList t))\<rparr>"
    using handleTick_state [of t] ht by simp
  have nz: "mTick node - mTicks t \<noteq> 0"
    using Suc.prems(2,3) by (auto simp: unat_0_iff [symmetric])
  have d: "mTick node - (mTicks t + 1) = mTick node - mTicks t - 1" by simp
  have u: "unat (mTick node - (mTicks t + 1)) = c - 1"
    unfolding d using unat_minus_one [OF nz] Suc.prems(2) by simp
  show ?case
  proof (cases "c = 1")
    case True
    then have "tick_not_later (mTick node) (mTicks t + 1)"
      using u by (simp add: tick_not_later_iff)
    then have "node \<in> set fired" using fired Suc.prems(1) by simp
    then show ?thesis using ht True by simp
  next
    case False
    then have c2: "1 \<le> c - 1" "c - 1 \<le> 2^31" "c - 1 \<le> fuel" "c - 1 < 2^31"
      using Suc.prems by auto
    have nd: "\<not> tick_not_later (mTick node) (mTicks t + 1)"
      using u c2 by (simp add: tick_not_later_iff)
    then have nf: "node \<notin> set fired" using fired by simp
    have "node \<in> set (Timer.mList t1)"
      using scan_kept [OF Suc.prems(1) nd] t1 by simp
    moreover have "unat (mTick node - mTicks t1) = c - 1"
      using u t1 by simp
    ultimately have "ticks_until_fire fuel node t1 = Some (c - 1)"
      using Suc.IH c2 by blast
    then show ?thesis using ht nf c2 by simp
  qed
qed

lemma ticks_until_fire_now:
  assumes "node \<in> set (Timer.mList t)" "mTick node = mTicks t"
  shows "ticks_until_fire (Suc fuel) node t = Some 1"
proof -
  have "mTick node - (mTicks t + 1) = (0::32 word) - 1" using assms(2) by simp
  then have "unat (mTick node - (mTicks t + 1)) = 2^32 - 1"
    by (simp only: unat_sub_if') simp
  then have "tick_not_later (mTick node) (mTicks t + 1)"
    by (simp add: tick_not_later_iff)
  then have "node \<in> set (fst (handleTick t))"
    using assms(1) by (simp add: handleTick_fired)
  then show ?thesis by (cases "handleTick t") simp
qed

lemma insert_node_mem: "node \<in> set (insert_node node ns)"
  by (induction ns) simp_all

lemma one_shot_fire_tick:
  assumes T: "0 < unat (mMsPerTick t)"
    and small: "(unat msecs + unat (mMsPerTick t) - 1) div unat (mMsPerTick t) \<le> 2^31"
    and run: "mClockThread t \<noteq> NULL"
    and fuel: "max 1 ((unat msecs + unat (mMsPerTick t) - 1) div unat (mMsPerTick t)) \<le> fuel"
  shows "ticks_until_fire fuel (timed_node event dispatcher msecs 0 t)
           (sendTimedEvent event dispatcher msecs t) =
           Some (max 1 ((unat msecs + unat (mMsPerTick t) - 1) div unat (mMsPerTick t)))"
proof -
  let ?node = "timed_node event dispatcher msecs 0 t"
  let ?t' = "sendTimedEvent event dispatcher msecs t"
  define c where "c = (unat msecs + unat (mMsPerTick t) - 1) div unat (mMsPerTick t)"
  have t': "?t' = addTimerNode ?node t"
    using run by (simp add: sendTimedEvent_def)
  have mem: "?node \<in> set (Timer.mList ?t')"
    by (simp add: t' addTimerNode_def insert_node_mem)
  have ticks: "mTicks ?t' = mTicks t" by (simp add: t' addTimerNode_def)
  have "mTick ?node - mTicks ?t' = of_nat c"
    by (simp add: ticks timed_node_def delay_ticks_def c_def)
  moreover have "unat (of_nat c :: 32 word) = c"
    using small by (intro unat_of_nat_32) (simp add: c_def)
  ultimately have u: "unat (mTick ?node - mTicks ?t') = c" by simp
  have "ticks_until_fire fuel ?node ?t' = Some (max 1 c)"
  proof (cases "c = 0")
    case True
    then have "mTick ?node = mTicks ?t'"
      using u by (simp add: unat_0_iff)
    moreover obtain f where "fuel = Suc f"
      using fuel by (cases fuel) simp_all
    ultimately show ?thesis
      using ticks_until_fire_now [OF mem] True by simp
  next
    case False
    then have "max 1 c = c" by simp
    then show ?thesis
      using ticks_until_fire_exact [OF mem u] False small fuel by (simp add: c_def)
  qed
  then show ?thesis
    unfolding c_def .
qed

subsection \<open>Periodic nodes\<close>





lemma sendPeriodicEvent_node:
  assumes "mClockThread t \<noteq> NULL" and "0 < unat (mMsPerTick t)"
  shows "timed_node event dispatcher period period t
           \<in> set (Timer.mList (sendPeriodicEvent event dispatcher period t))"
    and "unat (mRemainingMS (timed_node event dispatcher period period t)) < unat (mMsPerTick t)"
    and "mRepeatMS (timed_node event dispatcher period period t) = period"
    and "mTicks (sendPeriodicEvent event dispatcher period t) = mTicks t"
    and "mMsPerTick (sendPeriodicEvent event dispatcher period t) = mMsPerTick t"
  using assms
  by (simp_all add: sendPeriodicEvent_def addTimerNode_def insert_node_mem timed_node_def)








end
